theory Spec2Isabelle
  imports Complex_Main "HOL-Library.AList" "HOL-Library.Multiset" "HOL-Library.Sublist"
begin

section \<open>Python values, dictionaries and strings\<close>

text \<open>
  The records handled by both scripts are Python dictionaries from field names to
  strings; \<open>get_attribute('href')\<close> may also yield \<open>None\<close>. A dictionary is an
  association list with unique keys in insertion order, as Python keeps it:
  \<open>d[k] = v\<close> replaces the value in place when \<open>k\<close> is present and appends the
  pair otherwise, which is \<^const>\<open>AList.update\<close>.
  Strings are sequences of 8-bit code points (the Latin-1 range of Unicode).
\<close>

datatype pyval = PyNone | Str string

type_synonym dict = "(string \<times> pyval) list"

definition dict_get :: "dict \<Rightarrow> string \<Rightarrow> pyval \<Rightarrow> pyval" where
  \<comment> \<open>\<open>d.get(k, default)\<close>; \<open>d.get(k)\<close> is \<open>dict_get d k PyNone\<close>\<close>
  "dict_get d k dflt = (case map_of d k of None \<Rightarrow> dflt | Some v \<Rightarrow> v)"

definition has_key :: "dict \<Rightarrow> string \<Rightarrow> bool" where
  \<comment> \<open>\<open>k in d\<close>\<close>
  "has_key d k = (map_of d k \<noteq> None)"

definition dict_set :: "dict \<Rightarrow> string \<Rightarrow> pyval \<Rightarrow> dict" where
  \<comment> \<open>\<open>d[k] = v\<close>\<close>
  "dict_set d k v = AList.update k v d"

fun truthy :: "pyval \<Rightarrow> bool" where
  \<comment> \<open>the truth value Python gives a value in \<open>if v\<close>\<close>
  "truthy PyNone = False"
| "truthy (Str s) = (s \<noteq> [])"

definition py_isspace :: "char \<Rightarrow> bool" where
  \<comment> \<open>the code points below 256 that \<open>str.isspace\<close> accepts\<close>
  "py_isspace c =
     (let n = (of_char c :: nat)
      in (9 \<le> n \<and> n \<le> 13) \<or> (28 \<le> n \<and> n \<le> 32) \<or> n = 133 \<or> n = 160)"

definition lower_char :: "char \<Rightarrow> char" where
  \<comment> \<open>\<open>str.lower\<close> on one code point below 256: A-Z and the accented capitals\<close>
  "lower_char c =
     (let n = (of_char c :: nat)
      in if (65 \<le> n \<and> n \<le> 90) \<or> (192 \<le> n \<and> n \<le> 222 \<and> n \<noteq> 215)
         then char_of (n + 32) else c)"

definition py_lower :: "string \<Rightarrow> string" where
  "py_lower s = map lower_char s"

definition py_strip :: "string \<Rightarrow> string" where
  \<comment> \<open>\<open>s.strip()\<close>\<close>
  "py_strip s = rev (dropWhile py_isspace (rev (dropWhile py_isspace s)))"

fun split_from :: "string \<Rightarrow> string \<Rightarrow> string list" where
  \<comment> \<open>\<open>cur\<close> is the word being read\<close>
  "split_from cur [] = (if cur = [] then [] else [cur])"
| "split_from cur (c # cs) =
     (if py_isspace c
      then (if cur = [] then split_from [] cs else cur # split_from [] cs)
      else split_from (cur @ [c]) cs)"

definition py_split :: "string \<Rightarrow> string list" where
  \<comment> \<open>\<open>s.split()\<close>: the maximal runs of non-whitespace\<close>
  "py_split s = split_from [] s"

section \<open>Similarity matching\<close>

subsection \<open>The word-based matcher (simbi\_automation\_windows.py)\<close>

text \<open>
  \<open>SimpleSimilarityMatcher.calculate_similarity\<close>. The Python result is the float
  nearest to the quotient of two machine integers; the model keeps the exact quotient.
\<close>

definition SimpleSimilarityMatcher_calculate_similarity :: "string \<Rightarrow> string \<Rightarrow> rat" where
  "SimpleSimilarityMatcher_calculate_similarity text1 text2 =
     (if text1 = [] \<or> text2 = [] then 0
      else
        let words1 = set (py_split (py_lower text1));
            words2 = set (py_split (py_lower text2));
            intersection = card (words1 \<inter> words2);
            union = card (words1 \<union> words2)
        in if union = 0 then 0 else of_nat intersection / of_nat union)"

section \<open>The outside world\<close>

text \<open>
  Exceptions are values. The CSV file is a list of complete lines, each a row of cells,
  as \<open>csv.writer\<close> writes them: the text decodes, every line ends with its terminator
  and no quoted field is left open. The quoting of cells is below this level, and a file
  that ends in the middle of a line, or whose bytes do not decode, is outside the model.
  \<open>files\<close> maps a path to the content of the file there, and a
  path with no file to \<open>None\<close>. Every call made on the browser is appended to
  \<open>actions\<close>, every line printed (without the text of the exception) to \<open>stdout\<close>;
  the pauses and the log have no part in what follows and are left out. How the browser and the disk answer
  is given to each operation as an argument.
\<close>

datatype exn =
  OSError | ValueError | TypeError | CsvError | WebDriverException | TimeoutException

datatype csv_line = Row "string list"

datatype browser_action =
    Get pyval       \<comment> \<open>\<open>driver.get(url)\<close>\<close>
  | Find string     \<comment> \<open>\<open>find_element(by, selector)\<close> on the driver or on an element\<close>
  | WaitAll         \<comment> \<open>\<open>wait.until(presence_of_all_elements_located(...))\<close>\<close>
  | Click           \<comment> \<open>\<open>element.click()\<close>\<close>
  | SendKeys string \<comment> \<open>\<open>element.send_keys(text)\<close>\<close>

record world =
  files :: "string \<rightharpoonup> csv_line list"
  actions :: "browser_action list"
  stdout :: "string list"

datatype 'a lookup =
    Found 'a   \<comment> \<open>\<open>find_element\<close> returns an element\<close>
  | Missing    \<comment> \<open>it raises NoSuchElementException\<close>
  | Failing    \<comment> \<open>it, or reading the element, raises any other exception\<close>

definition act :: "browser_action \<Rightarrow> world \<Rightarrow> world" where
  "act a w = w\<lparr>actions := actions w @ [a]\<rparr>"

definition print_line :: "string \<Rightarrow> world \<Rightarrow> world" where
  "print_line l w = w\<lparr>stdout := stdout w @ [l]\<rparr>"

text \<open>
  The loop both scripts use to resolve a locator list:
  \<^verbatim>\<open>
  x = None
  for selector in selectors:
      try:
          x = find_element(selector); break
      except NoSuchElementException:
          continue
  \<close>
  The first selector that finds an element wins; an exception other than
  NoSuchElementException leaves the loop and propagates.
\<close>

fun find_first ::
  "(string \<Rightarrow> 'a lookup) \<Rightarrow> string list \<Rightarrow> world \<Rightarrow> (exn + 'a option) \<times> world" where
  "find_first f [] w = (Inr None, w)"
| "find_first f (selector # selectors) w =
     (case f selector of
        Found x \<Rightarrow> (Inr (Some x), act (Find selector) w)
      | Missing \<Rightarrow> find_first f selectors (act (Find selector) w)
      | Failing \<Rightarrow> (Inl WebDriverException, act (Find selector) w))"

section \<open>The sent-message ledger (class SimbiDataManager, the same in both scripts)\<close>

record SimbiDataManager =
  csv_file :: string
  sent_messages :: "pyval set"

definition fieldnames :: "string list" where
  "fieldnames = [''timestamp'', ''user_name'', ''request_title'', ''link'',
                 ''user_request_text'', ''message_sent'']"

definition dict_reader_row :: "string list \<Rightarrow> string list \<Rightarrow> dict" where
  \<comment> \<open>the dictionary \<open>csv.DictReader\<close> makes of a row: \<open>dict(zip(names, cells))\<close>, then
      \<open>None\<close> for the names a short row leaves over. The cells a long row has beyond
      the names go under the key \<open>None\<close>, which no lookup of this program reads.\<close>
  "dict_reader_row names cells =
     fold (\<lambda>k d. dict_set d k PyNone) (drop (length cells) names)
       (fold (\<lambda>(k, v) d. dict_set d k (Str v)) (zip names cells) [])"

definition field_size_limit :: nat where
  \<comment> \<open>\<open>csv.field_size_limit()\<close>, which the scripts leave at its default\<close>
  "field_size_limit = 131072"

definition oversized :: "string list \<Rightarrow> bool" where
  \<comment> \<open>\<open>csv.reader\<close> raises \<open>csv.Error\<close> on a line with a field longer than the limit\<close>
  "oversized cells = (\<exists>c \<in> set cells. field_size_limit < length c)"

fun read_rows :: "string list \<Rightarrow> csv_line list \<Rightarrow> pyval set \<Rightarrow> exn option \<times> pyval set" where
  \<comment> \<open>\<open>for row in reader\<close>; DictReader skips empty rows; an exception ends the loop
      and keeps the links added so far\<close>
  "read_rows names [] sent = (None, sent)"
| "read_rows names (Row cells # rest) sent =
     (if oversized cells then (Some CsvError, sent)
      else if cells = [] then read_rows names rest sent
      else
        let row = dict_reader_row names cells
        in if has_key row ''link''
           then read_rows names rest (insert (dict_get row ''link'' PyNone) sent)
           else read_rows names rest sent)"

definition load_sent_messages :: "SimbiDataManager \<Rightarrow> world \<Rightarrow> SimbiDataManager \<times> world" where
  \<comment> \<open>the first line of the file is the header DictReader takes the field names from\<close>
  "load_sent_messages self w =
     (case files w (csv_file self) of
        None \<Rightarrow> (self, w)
      | Some [] \<Rightarrow> (self, w)
      | Some (Row names # rest) \<Rightarrow>
          if oversized names then (self, print_line ''Error loading sent messages'' w)
          else
            (case read_rows names rest (sent_messages self) of
               (None, sent) \<Rightarrow> (self\<lparr>sent_messages := sent\<rparr>, w)
             | (Some e, sent) \<Rightarrow>
                 (self\<lparr>sent_messages := sent\<rparr>, print_line ''Error loading sent messages'' w)))"

definition SimbiDataManager_init :: "string \<Rightarrow> world \<Rightarrow> SimbiDataManager \<times> world" where
  \<comment> \<open>\<open>__init__\<close>\<close>
  "SimbiDataManager_init path w = load_sent_messages \<lparr>csv_file = path, sent_messages = {}\<rparr> w"

definition is_message_sent :: "SimbiDataManager \<Rightarrow> pyval \<Rightarrow> bool" where
  "is_message_sent self link = (link \<in> sent_messages self)"

text \<open>
  Where the disk fails during one call of \<open>record_sent_message\<close>: at \<open>open\<close>, in
  \<open>writeheader\<close>, in \<open>writerow\<close>, or when the \<open>with\<close> block closes the file and its
  buffer is flushed. A failed close is taken to lose what the call wrote.
\<close>

datatype write_fault = NoFault | OpenFault | HeaderFault | RowFault | CloseFault

definition dict_writer_row :: "dict \<Rightarrow> exn + string list" where
  \<comment> \<open>\<open>csv.DictWriter.writerow\<close>: a key outside the field names raises ValueError, a
      missing field is written empty, and so is \<open>None\<close>\<close>
  "dict_writer_row rowdict =
     (if \<exists>k \<in> set (map fst rowdict). k \<notin> set fieldnames then Inl ValueError
      else Inr (map (\<lambda>k. case dict_get rowdict k (Str []) of PyNone \<Rightarrow> [] | Str s \<Rightarrow> s)
                  fieldnames))"

definition append_line :: "string \<Rightarrow> csv_line \<Rightarrow> world \<Rightarrow> world" where
  "append_line path l w =
     w\<lparr>files := (files w)(path \<mapsto> (case files w path of None \<Rightarrow> [] | Some ls \<Rightarrow> ls) @ [l])\<rparr>"

definition open_append :: "string \<Rightarrow> world \<Rightarrow> world" where
  \<comment> \<open>\<open>open(path, 'a')\<close> creates the file when there is none\<close>
  "open_append path w =
     w\<lparr>files := (files w)(path \<mapsto> (case files w path of None \<Rightarrow> [] | Some ls \<Rightarrow> ls))\<rparr>"

definition record_with_body ::
  "write_fault \<Rightarrow> string \<Rightarrow> bool \<Rightarrow> SimbiDataManager \<Rightarrow> world \<Rightarrow> dict
     \<Rightarrow> exn option \<times> dict \<times> SimbiDataManager \<times> world" where
  \<comment> \<open>the body of the \<open>with\<close> block; \<open>now\<close> is \<open>datetime.now().isoformat()\<close>\<close>
  "record_with_body fault now file_exists self w data =
     (if \<not> file_exists \<and> fault = HeaderFault then (Some OSError, data, self, w)
      else
        let w1 = (if \<not> file_exists then append_line (csv_file self) (Row fieldnames) w else w);
            data1 = dict_set data ''timestamp'' (Str now)
        in case dict_writer_row data1 of
             Inl e \<Rightarrow> (Some e, data1, self, w1)
           | Inr cells \<Rightarrow>
               if fault = RowFault then (Some OSError, data1, self, w1)
               else
                 let w2 = append_line (csv_file self) (Row cells) w1;
                     self1 = (if has_key data1 ''link''
                              then self\<lparr>sent_messages :=
                                     insert (dict_get data1 ''link'' PyNone) (sent_messages self)\<rparr>
                              else self)
                 in (None, data1, self1, w2))"

definition record_try ::
  "write_fault \<Rightarrow> string \<Rightarrow> SimbiDataManager \<Rightarrow> world \<Rightarrow> dict
     \<Rightarrow> exn option \<times> dict \<times> SimbiDataManager \<times> world" where
  \<comment> \<open>the \<open>try\<close> block of \<open>record_sent_message\<close>: the exception it raises, if any, the
      dictionary, the ledger and the world it leaves\<close>
  "record_try fault now self w data =
     (let file_exists = (files w (csv_file self) \<noteq> None)
      in if fault = OpenFault then (Some OSError, data, self, w)
         else
           let opened = open_append (csv_file self) w
           in case record_with_body fault now file_exists self opened data of
                (raised, data1, self1, w1) \<Rightarrow>
                  if fault = CloseFault then (Some OSError, data1, self1, opened)
                  else (raised, data1, self1, w1))"

definition record_sent_message ::
  "write_fault \<Rightarrow> string \<Rightarrow> SimbiDataManager \<Rightarrow> world \<Rightarrow> dict
     \<Rightarrow> dict \<times> SimbiDataManager \<times> world" where
  \<comment> \<open>\<open>except Exception as e: print(...)\<close>: the function returns \<open>None\<close> either way\<close>
  "record_sent_message fault now self w data =
     (case record_try fault now self w data of
        (None, data1, self1, w1) \<Rightarrow> (data1, self1, w1)
      | (Some e, data1, self1, w1) \<Rightarrow>
          (data1, self1, print_line ''Error recording sent message'' w1))"

section \<open>Sending a message (SimbiAutomation.send\_message, the same in both scripts)\<close>

text \<open>
  Of the configuration, the model keeps what the operations below read.
  \<open>message_template_format u t\<close> stands for
  \<open>config['message_template'].format(user_name=u, request_title=t)\<close>, with \<open>None\<close>
  when \<open>str.format\<close> raises (a template with another field, a lone brace).
\<close>

record config =
  service_url :: string
  max_pages :: int
  message_template_format :: "pyval \<Rightarrow> pyval \<Rightarrow> string option"

text \<open>How the browser answers during one call of \<open>send_message\<close>.\<close>

record send_page =
  get_fails :: bool
  message_button :: "string \<Rightarrow> unit lookup"
  message_click_fails :: bool
  text_area :: "string \<Rightarrow> unit lookup"
  send_keys_fails :: bool
  send_button :: "string \<Rightarrow> unit lookup"
  send_click_fails :: bool

definition message_selectors :: "string list" where
  "message_selectors =
     [''//button[contains(text(), 'Message')]'', ''//a[contains(text(), 'Contact')]'',
      ''//button[contains(@class, 'message')]'', ''//a[contains(@class, 'contact')]'']"

definition text_area_selectors :: "string list" where
  "text_area_selectors =
     [''textarea[name='message']'', ''textarea[placeholder*='message']'',
      ''.message-text'', ''textarea'']"

definition send_selectors :: "string list" where
  "send_selectors =
     [''//button[contains(text(), 'Send')]'', ''//input[@type='submit']'',
      ''//button[@type='submit']'']"

definition submit_message :: "config \<Rightarrow> send_page \<Rightarrow> world \<Rightarrow> dict \<Rightarrow> string option \<times> world" where
  \<comment> \<open>the browser steps of \<open>send_message\<close>, from \<open>driver.get\<close> to the click on the
      send button: the text that was sent, or \<open>None\<close> where the source returns False
      (no element found, or an exception caught by \<open>except Exception\<close>)\<close>
  "submit_message cfg page w request_data =
     (let w1 = (if has_key request_data ''link''
                then act (Get (dict_get request_data ''link'' PyNone)) w else w)
      in if has_key request_data ''link'' \<and> get_fails page then (None, w1)
         else
           (case find_first (message_button page) message_selectors w1 of
              (Inl e, w2) \<Rightarrow> (None, w2)
            | (Inr None, w2) \<Rightarrow> (None, w2)
            | (Inr (Some found_message_button), w2) \<Rightarrow>
                if message_click_fails page then (None, act Click w2)
                else
                  (case find_first (text_area page) text_area_selectors (act Click w2) of
                     (Inl e, w3) \<Rightarrow> (None, w3)
                   | (Inr None, w3) \<Rightarrow> (None, w3)
                   | (Inr (Some found_text_area), w3) \<Rightarrow>
                       (case message_template_format cfg
                               (dict_get request_data ''user_name'' (Str ''there''))
                               (dict_get request_data ''request_title'' (Str ''your request'')) of
                          None \<Rightarrow> (None, w3)
                        | Some message_text \<Rightarrow>
                            if send_keys_fails page then (None, act (SendKeys message_text) w3)
                            else
                              (case find_first (send_button page) send_selectors
                                      (act (SendKeys message_text) w3) of
                                 (Inl e, w4) \<Rightarrow> (None, w4)
                               | (Inr None, w4) \<Rightarrow> (None, w4)
                               | (Inr (Some found_send_button), w4) \<Rightarrow>
                                   if send_click_fails page then (None, act Click w4)
                                   else (Some message_text, act Click w4))))))"

definition send_message ::
  "config \<Rightarrow> send_page \<Rightarrow> write_fault \<Rightarrow> string \<Rightarrow> SimbiDataManager \<Rightarrow> world \<Rightarrow> dict
     \<Rightarrow> bool \<times> dict \<times> SimbiDataManager \<times> world" where
  \<comment> \<open>the value returned, the caller's dictionary, the ledger and the world afterwards\<close>
  "send_message cfg page fault now data_manager w request_data =
     (if is_message_sent data_manager (dict_get request_data ''link'' (Str []))
      then (False, request_data, data_manager, w)
      else
        case submit_message cfg page w request_data of
          (None, w1) \<Rightarrow> (False, request_data, data_manager, w1)
        | (Some message_text, w1) \<Rightarrow>
            (case record_sent_message fault now data_manager w1
                    (dict_set request_data ''message_sent'' (Str message_text)) of
               (request_data1, data_manager1, w2) \<Rightarrow> (True, request_data1, data_manager1, w2)))"

section \<open>Scraping (scrape\_requests and its helpers, the same in both scripts)\<close>

text \<open>
  An element of a listing page answers \<open>find_element(By.CSS_SELECTOR, selector)\<close>
  with a child element, of which the scripts read the text and the \<open>href\<close> attribute.
\<close>

record web_element =
  elem_text :: string
  elem_href :: pyval

type_synonym element = "string \<Rightarrow> web_element lookup"

record button =
  is_enabled :: bool
  click_fails :: bool

record listing_page =
  request_elements :: "element list option"  \<comment> \<open>\<open>None\<close>: \<open>wait.until\<close> raises\<close>
  next_button :: "string \<Rightarrow> button lookup"

definition title_selectors :: "string list" where
  "title_selectors = [''.title'', ''.request-title'', ''h3'', ''h4'', ''.card-title'']"

definition user_selectors :: "string list" where
  "user_selectors = [''.user-name'', ''.author'', ''.username'', ''.by'']"

definition desc_selectors :: "string list" where
  "desc_selectors = [''.description'', ''.content'', ''.text'', ''p'']"

definition link_selectors :: "string list" where
  "link_selectors = [''a'', ''.link'']"

definition next_selectors :: "string list" where
  "next_selectors =
     [''//a[contains(text(), 'Next')]'', ''//a[contains(@class, 'next')]'',
      ''//button[contains(text(), 'Next')]'', ''//a[@rel='next']'']"

definition extract_request_data :: "element \<Rightarrow> world \<Rightarrow> (exn + dict) \<times> world" where
  \<comment> \<open>the four locator loops run on one element, in the order of the source; an
      exception raised by a lookup leaves the element's \<open>try\<close> block\<close>
  "extract_request_data element w =
     (case find_first element title_selectors w of
        (Inl e, w1) \<Rightarrow> (Inl e, w1)
      | (Inr title_element, w1) \<Rightarrow>
          let d1 = (case title_element of None \<Rightarrow> []
                    | Some t \<Rightarrow> dict_set [] ''request_title'' (Str (py_strip (elem_text t))))
          in case find_first element user_selectors w1 of
               (Inl e, w2) \<Rightarrow> (Inl e, w2)
             | (Inr user_element, w2) \<Rightarrow>
                 let d2 = (case user_element of None \<Rightarrow> d1
                           | Some u \<Rightarrow> dict_set d1 ''user_name'' (Str (py_strip (elem_text u))))
                 in case find_first element desc_selectors w2 of
                      (Inl e, w3) \<Rightarrow> (Inl e, w3)
                    | (Inr desc_element, w3) \<Rightarrow>
                        let d3 = (case desc_element of None \<Rightarrow> d2
                                  | Some d \<Rightarrow>
                                      dict_set d2 ''user_request_text''
                                        (Str (py_strip (elem_text d))))
                        in case find_first element link_selectors w3 of
                             (Inl e, w4) \<Rightarrow> (Inl e, w4)
                           | (Inr link_element, w4) \<Rightarrow>
                               (Inr (case link_element of None \<Rightarrow> d3
                                     | Some l \<Rightarrow> dict_set d3 ''link'' (elem_href l)), w4))"

fun extract_elements :: "element list \<Rightarrow> dict list \<Rightarrow> world \<Rightarrow> dict list \<times> world" where
  \<comment> \<open>\<open>for element in request_elements\<close>\<close>
  "extract_elements [] requests w = (requests, w)"
| "extract_elements (element # rest) requests w =
     (case extract_request_data element w of
        (Inl e, w1) \<Rightarrow> extract_elements rest requests w1
      | (Inr request_data, w1) \<Rightarrow>
          if truthy (dict_get request_data ''request_title'' PyNone)
             \<and> truthy (dict_get request_data ''link'' PyNone)
          then extract_elements rest (requests @ [request_data]) w1
          else extract_elements rest requests w1)"

definition extract_requests_from_page :: "listing_page \<Rightarrow> world \<Rightarrow> dict list \<times> world" where
  "extract_requests_from_page page w =
     (case request_elements page of
        None \<Rightarrow> ([], act WaitAll w)
      | Some elements \<Rightarrow> extract_elements elements [] (act WaitAll w))"

fun next_loop :: "(string \<Rightarrow> button lookup) \<Rightarrow> string list \<Rightarrow> world \<Rightarrow> bool \<times> world" where
  \<comment> \<open>\<open>for selector in next_selectors\<close>; a button that is not enabled is passed over\<close>
  "next_loop f [] w = (False, w)"
| "next_loop f (selector # selectors) w =
     (case f selector of
        Missing \<Rightarrow> next_loop f selectors (act (Find selector) w)
      | Failing \<Rightarrow> (False, act (Find selector) w)
      | Found found_button \<Rightarrow>
          if is_enabled found_button
          then (\<not> click_fails found_button, act Click (act (Find selector) w))
          else next_loop f selectors (act (Find selector) w))"

definition go_to_next_page :: "listing_page \<Rightarrow> world \<Rightarrow> bool \<times> world" where
  "go_to_next_page page w = next_loop (next_button page) next_selectors w"

text \<open>
  \<open>site k\<close> is the listing page the browser shows after \<open>k\<close> clicks on a next-page
  button. \<open>for page in range(1, max_pages + 1)\<close> runs its body at most
  \<open>nat max_pages\<close> times; \<open>n\<close> counts the iterations left.
\<close>

fun scrape_loop ::
  "(nat \<Rightarrow> listing_page) \<Rightarrow> nat \<Rightarrow> nat \<Rightarrow> dict list \<Rightarrow> world \<Rightarrow> dict list \<times> world" where
  "scrape_loop site 0 k requests_data w = (requests_data, w)"
| "scrape_loop site (Suc n) k requests_data w =
     (case extract_requests_from_page (site k) w of
        (page_requests, w1) \<Rightarrow>
          (case go_to_next_page (site k) w1 of
             (False, w2) \<Rightarrow> (requests_data @ page_requests, w2)
           | (True, w2) \<Rightarrow> scrape_loop site n (Suc k) (requests_data @ page_requests) w2))"

definition scrape_requests ::
  "config \<Rightarrow> bool \<Rightarrow> (nat \<Rightarrow> listing_page) \<Rightarrow> int option \<Rightarrow> world \<Rightarrow> dict list \<times> world" where
  \<comment> \<open>\<open>start_fails\<close>: the first \<open>driver.get\<close> raises, and the empty list is returned\<close>
  "scrape_requests cfg start_fails site max_pages_arg w =
     (let max_pages = (case max_pages_arg of None \<Rightarrow> max_pages cfg | Some m \<Rightarrow> m);
          w1 = act (Get (Str (service_url cfg))) w
      in if start_fails then ([], w1)
         else scrape_loop site (nat max_pages) 0 [] w1)"

definition extraction_cycles :: "world \<Rightarrow> nat" where
  \<comment> \<open>how often the browser was asked for the elements of a page\<close>
  "extraction_cycles w = count_list (actions w) WaitAll"

section \<open>Grouping similar requests\<close>

text \<open>
  \<open>SimbiSimilarityMatcher\<close> of simbi\_automation\_consolidated.py. \<open>model\<close> is the
  sentence encoder, \<open>None\<close> when it was not loaded; a loaded model is kept as the
  function that encodes two texts and returns the cosine of the embeddings, or
  \<open>None\<close> when that raises. \<open>ml_available\<close> is the module's \<open>ML_AVAILABLE\<close>.
\<close>

record SimbiSimilarityMatcher =
  threshold :: rat
  model :: "(string \<Rightarrow> string \<Rightarrow> rat option) option"

definition SimbiSimilarityMatcher_calculate_similarity ::
  "bool \<Rightarrow> SimbiSimilarityMatcher \<Rightarrow> string \<Rightarrow> string \<Rightarrow> rat" where
  "SimbiSimilarityMatcher_calculate_similarity ml_available self text1 text2 =
     (case model self of
        None \<Rightarrow> 0
      | Some encode_cosine \<Rightarrow>
          if \<not> ml_available then 0
          else (case encode_cosine text1 text2 of None \<Rightarrow> 0 | Some similarity \<Rightarrow> similarity))"

definition request_text :: "dict \<Rightarrow> exn + string" where
  \<comment> \<open>\<open>request.get('user_request_text', '') + ' ' + request.get('request_title', '')\<close>;
      adding a string to \<open>None\<close> raises TypeError\<close>
  "request_text request =
     (case dict_get request ''user_request_text'' (Str []) of
        PyNone \<Rightarrow> Inl TypeError
      | Str description \<Rightarrow>
          (case dict_get request ''request_title'' (Str []) of
             PyNone \<Rightarrow> Inl TypeError
           | Str title \<Rightarrow> Inr (description @ '' '' @ title)))"

fun scan_others ::
  "(string \<Rightarrow> string \<Rightarrow> rat) \<Rightarrow> rat \<Rightarrow> string \<Rightarrow> (nat \<times> dict) list \<Rightarrow> dict list \<Rightarrow> nat set
     \<Rightarrow> exn + dict list \<times> nat set" where
  \<comment> \<open>\<open>for j, other_request in enumerate(requests[i+1:], i+1)\<close>\<close>
  "scan_others calc th text [] grp processed = Inr (grp, processed)"
| "scan_others calc th text ((j, other_request) # rest) grp processed =
     (if j \<in> processed then scan_others calc th text rest grp processed
      else
        case request_text other_request of
          Inl e \<Rightarrow> Inl e
        | Inr other_text \<Rightarrow>
            if calc text other_text \<ge> th
            then scan_others calc th text rest (grp @ [other_request]) (insert j processed)
            else scan_others calc th text rest grp processed)"

fun group_from ::
  "(string \<Rightarrow> string \<Rightarrow> rat) \<Rightarrow> rat \<Rightarrow> dict list \<Rightarrow> (nat \<times> dict) list \<Rightarrow> dict list list
     \<Rightarrow> nat set \<Rightarrow> exn + dict list list" where
  \<comment> \<open>\<open>for i, request in enumerate(requests)\<close>\<close>
  "group_from calc th requests [] groups processed = Inr groups"
| "group_from calc th requests ((i, request) # rest) groups processed =
     (if i \<in> processed then group_from calc th requests rest groups processed
      else
        case request_text request of
          Inl e \<Rightarrow> Inl e
        | Inr text \<Rightarrow>
            (case scan_others calc th text (enumerate (i + 1) (drop (i + 1) requests))
                    [request] (insert i processed) of
               Inl e \<Rightarrow> Inl e
             | Inr (grp, processed1) \<Rightarrow>
                 group_from calc th requests rest (groups @ [grp]) processed1))"

definition group_similar_requests_windows :: "rat \<Rightarrow> dict list \<Rightarrow> exn + dict list list" where
  \<comment> \<open>simbi\_automation\_windows.py; the first argument is \<open>similarity_matcher.threshold\<close>\<close>
  "group_similar_requests_windows th requests =
     group_from SimpleSimilarityMatcher_calculate_similarity th requests
       (enumerate 0 requests) [] {}"

definition group_similar_requests ::
  "bool \<Rightarrow> SimbiSimilarityMatcher \<Rightarrow> dict list \<Rightarrow> exn + dict list list" where
  \<comment> \<open>simbi\_automation\_consolidated.py\<close>
  "group_similar_requests ml_available similarity_matcher requests =
     (if model similarity_matcher = None then Inr (map (\<lambda>req. [req]) requests)
      else
        group_from (SimbiSimilarityMatcher_calculate_similarity ml_available similarity_matcher)
          (threshold similarity_matcher) requests (enumerate 0 requests) [] {})"

section \<open>The messaging run\<close>

text \<open>
  The loop of \<open>run_messaging_mode\<close>,
  \<^verbatim>\<open>for request_data in requests_data: if self.send_message(request_data): sent_count += 1\<close>.
  Each step comes with the answers of the browser and of the disk during it. The loop
  returns the count, the dictionaries as the calls left them, the ledger and the world.
\<close>

fun messaging_loop ::
  "config \<Rightarrow> (send_page \<times> write_fault \<times> string \<times> dict) list \<Rightarrow> nat \<Rightarrow> SimbiDataManager \<Rightarrow> world
     \<Rightarrow> nat \<times> dict list \<times> SimbiDataManager \<times> world" where
  "messaging_loop cfg [] sent_count data_manager w = (sent_count, [], data_manager, w)"
| "messaging_loop cfg ((page, fault, now, request_data) # rest) sent_count data_manager w =
     (case send_message cfg page fault now data_manager w request_data of
        (sent, request_data1, data_manager1, w1) \<Rightarrow>
          (case messaging_loop cfg rest (if sent then sent_count + 1 else sent_count)
                  data_manager1 w1 of
             (n, dicts, data_manager2, w2) \<Rightarrow> (n, request_data1 # dicts, data_manager2, w2)))"

section \<open>Notions used to state the properties\<close>

text \<open>What a locator list resolves to on an element, without the trace of the calls.\<close>

fun first_match :: "(string \<Rightarrow> 'a lookup) \<Rightarrow> string list \<Rightarrow> exn + 'a option" where
  "first_match f [] = Inr None"
| "first_match f (selector # selectors) =
     (case f selector of
        Found x \<Rightarrow> Inr (Some x)
      | Missing \<Rightarrow> first_match f selectors
      | Failing \<Rightarrow> Inl WebDriverException)"

definition find_trail :: "(string \<Rightarrow> 'a lookup) \<Rightarrow> string list \<Rightarrow> world \<Rightarrow> world" where
  "find_trail f selectors w = snd (find_first f selectors w)"



definition lookup_raises :: "element \<Rightarrow> bool" where
  \<comment> \<open>one of the four locator lists meets a lookup that raises something other than
      NoSuchElementException before it finds an element\<close>
  "lookup_raises element =
     (\<exists>selectors \<in> {title_selectors, user_selectors, desc_selectors, link_selectors}.
        first_match element selectors = Inl WebDriverException)"

definition field_of :: "string \<Rightarrow> (exn + 'a option) \<Rightarrow> ('a \<Rightarrow> pyval) \<Rightarrow> dict" where
  "field_of k resolved v = (case resolved of Inr (Some x) \<Rightarrow> [(k, v x)] | _ \<Rightarrow> [])"

definition request_data_of :: "element \<Rightarrow> dict" where
  \<comment> \<open>the record of an element: the fields that resolve, in the order of the source\<close>
  "request_data_of element =
     field_of ''request_title'' (first_match element title_selectors)
       (\<lambda>t. Str (py_strip (elem_text t)))
     @ field_of ''user_name'' (first_match element user_selectors)
       (\<lambda>u. Str (py_strip (elem_text u)))
     @ field_of ''user_request_text'' (first_match element desc_selectors)
       (\<lambda>d. Str (py_strip (elem_text d)))
     @ field_of ''link'' (first_match element link_selectors) elem_href"

definition next_page_reached :: "listing_page \<Rightarrow> bool" where
  \<comment> \<open>what \<open>go_to_next_page\<close> returns on a page\<close>
  "next_page_reached page =
     fst (go_to_next_page page \<lparr>files = Map.empty, actions = [], stdout = []\<rparr>)"

definition text_of :: "dict \<Rightarrow> string" where
  "text_of request = (case request_text request of Inr t \<Rightarrow> t | Inl e \<Rightarrow> [])"

text \<open>
  The grouping loops seen on positions: the groups of input positions that
  \<open>group_from\<close> forms when \<open>sim i j\<close> says that the record at \<open>j\<close> scores at
  least the threshold against the record at \<open>i\<close>.
\<close>

fun group_indices :: "(nat \<Rightarrow> nat \<Rightarrow> bool) \<Rightarrow> nat \<Rightarrow> nat list \<Rightarrow> nat set \<Rightarrow> nat list list" where
  "group_indices sim n [] processed = []"
| "group_indices sim n (i # rest) processed =
     (if i \<in> processed then group_indices sim n rest processed
      else
        let members = filter (\<lambda>j. j \<notin> processed \<and> sim i j) [i + 1..<n]
        in (i # members) # group_indices sim n rest (insert i processed \<union> set members))"

definition index_groups :: "nat \<Rightarrow> nat list list \<Rightarrow> bool" where
  "index_groups n igs \<longleftrightarrow>
     mset (concat igs) = mset [0..<n]
     \<and> (\<forall>ig \<in> set igs. ig \<noteq> [] \<and> sorted_wrt (<) ig)
     \<and> sorted_wrt (<) (map hd igs)
     \<and> length igs \<le> n"

section \<open>Concrete inputs\<close>

definition world_empty :: world where
  "world_empty = \<lparr>files = Map.empty, actions = [], stdout = []\<rparr>"

definition world_blank_file :: world where
  \<comment> \<open>the ledger file exists and is empty\<close>
  "world_blank_file = \<lparr>files = [''inbox.csv'' \<mapsto> []], actions = [], stdout = []\<rparr>"

definition ledger_empty :: SimbiDataManager where
  "ledger_empty = \<lparr>csv_file = ''inbox.csv'', sent_messages = {}\<rparr>"

definition ledger_with_logo :: SimbiDataManager where
  "ledger_with_logo =
     \<lparr>csv_file = ''inbox.csv'', sent_messages = {Str ''https://simbi.com/r/1''}\<rparr>"

definition page_all_found :: send_page where
  "page_all_found =
     \<lparr>get_fails = False, message_button = (\<lambda>s. Found ()), message_click_fails = False,
      text_area = (\<lambda>s. Found ()), send_keys_fails = False,
      send_button = (\<lambda>s. Found ()), send_click_fails = False\<rparr>"

definition cfg_example :: config where
  "cfg_example =
     \<lparr>service_url = ''https://simbi.com/requests'', max_pages = 150,
      message_template_format = (\<lambda>u t. Some ''Hi, I can help'')\<rparr>"

definition request_logo :: dict where
  "request_logo =
     [(''request_title'', Str ''Need a logo''), (''link'', Str ''https://simbi.com/r/1'')]"

definition request_sink :: dict where
  "request_sink =
     [(''request_title'', Str ''Fix my sink''), (''link'', Str ''https://simbi.com/r/2'')]"

definition request_logo_again :: dict where
  "request_logo_again =
     [(''request_title'', Str ''need a LOGO''), (''link'', Str ''https://simbi.com/r/3'')]"

definition request_none_title :: dict where
  "request_none_title = [(''request_title'', PyNone), (''link'', Str ''https://simbi.com/r/4'')]"

definition long_text :: string where
  \<comment> \<open>one character more than \<open>csv.reader\<close> accepts in a field\<close>
  "long_text = replicate 131073 (CHR ''a'')"

definition request_long_text :: dict where
  "request_long_text =
     [(''user_request_text'', Str long_text), (''link'', Str ''https://simbi.com/r/5'')]"

definition matcher_without_model :: SimbiSimilarityMatcher where
  "matcher_without_model = \<lparr>threshold = 7 / 10, model = None\<rparr>"


definition element_no_author :: element where
  \<comment> \<open>title and link are there; no locator of the author or the description matches\<close>
  "element_no_author = (\<lambda>selector.
     if selector = ''h3'' then Found \<lparr>elem_text = '' Logo design '', elem_href = PyNone\<rparr>
     else if selector = ''a''
       then Found \<lparr>elem_text = ''open'', elem_href = Str ''https://simbi.com/r/1''\<rparr>
     else Missing)"

definition page_with_next :: listing_page where
  "page_with_next =
     \<lparr>request_elements = Some [element_no_author],
      next_button = (\<lambda>selector. if selector = ''//a[@rel='next']''
                      then Found \<lparr>is_enabled = True, click_fails = False\<rparr> else Missing)\<rparr>"

definition page_last :: listing_page where
  "page_last = \<lparr>request_elements = Some [element_no_author], next_button = (\<lambda>selector. Missing)\<rparr>"

definition site_of_three :: "nat \<Rightarrow> listing_page" where
  \<comment> \<open>three pages; the third has no next-page button\<close>
  "site_of_three k = (if k < 2 then page_with_next else page_last)"

section \<open>Properties of the string functions\<close>

lemma py_isspace_lower_char: "py_isspace (lower_char c) = py_isspace c"
proof -
  have "of_char (char_of (of_char c + 32 :: nat)) = (of_char c + 32 :: nat)"
    if "(of_char c :: nat) \<le> 222"
    using that by (simp add: of_char_of)
  then show ?thesis
    by (auto simp: py_isspace_def lower_char_def Let_def)
qed

lemma split_from_nonempty_cur: "cur \<noteq> [] \<Longrightarrow> split_from cur s \<noteq> []"
  by (induction s arbitrary: cur) auto

lemma split_from_Nil_iff:
  "split_from [] s = [] \<longleftrightarrow> (\<forall>c \<in> set s. py_isspace c)"
  by (induction s) (auto simp: split_from_nonempty_cur)

lemma py_split_Nil_iff: "py_split (py_lower s) = [] \<longleftrightarrow> (\<forall>c \<in> set s. py_isspace c)"
  by (simp add: py_split_def py_lower_def split_from_Nil_iff py_isspace_lower_char)

section \<open>The word-based similarity score\<close>

lemma simple_similarity_commute:
  "SimpleSimilarityMatcher_calculate_similarity a b
     = SimpleSimilarityMatcher_calculate_similarity b a"
  by (simp add: SimpleSimilarityMatcher_calculate_similarity_def Let_def
        Int_commute Un_commute disj_commute)

lemma jaccard_quotient_bounds:
  fixes i u :: nat
  assumes "i \<le> u" and "u \<noteq> 0"
  shows "0 \<le> (of_nat i / of_nat u :: rat)" and "(of_nat i / of_nat u :: rat) \<le> 1"
  using assms by (simp_all add: divide_le_eq_1)

lemma simple_similarity_range:
  "0 \<le> SimpleSimilarityMatcher_calculate_similarity a b
   \<and> SimpleSimilarityMatcher_calculate_similarity a b \<le> 1"
proof -
  let ?A = "set (py_split (py_lower a))" and ?B = "set (py_split (py_lower b))"
  have le: "card (?A \<inter> ?B) \<le> card (?A \<union> ?B)"
    by (intro card_mono) auto
  show ?thesis
    using jaccard_quotient_bounds[OF le]
    by (simp add: SimpleSimilarityMatcher_calculate_similarity_def Let_def)
qed

lemma simple_similarity_self:
  assumes "\<exists>c \<in> set a. \<not> py_isspace c"
  shows "SimpleSimilarityMatcher_calculate_similarity a a = 1"
proof -
  from assms have "py_split (py_lower a) \<noteq> []"
    by (simp add: py_split_Nil_iff)
  then have "card (set (py_split (py_lower a))) \<noteq> 0"
    by simp
  moreover from assms have "a \<noteq> []"
    by auto
  ultimately show ?thesis
    by (simp add: SimpleSimilarityMatcher_calculate_similarity_def Let_def)
qed

lemma simple_similarity_blank:
  assumes "\<forall>c \<in> set a. py_isspace c"
  shows "SimpleSimilarityMatcher_calculate_similarity a b = 0"
proof -
  from assms have "py_split (py_lower a) = []"
    by (simp add: py_split_Nil_iff)
  then show ?thesis
    by (simp add: SimpleSimilarityMatcher_calculate_similarity_def Let_def)
qed

text \<open>
  Claim C3, as the code has it. The word-based score is symmetric, lies between 0 and 1,
  and is 0 when either text is empty. A text scores 1 against itself when it holds at
  least one character that is not whitespace; a text of whitespace only has no words,
  and the guard \<open>if union == 0: return 0.0\<close> makes its score 0 against every text,
  itself included.
\<close>

theorem simple_similarity_properties:
  "SimpleSimilarityMatcher_calculate_similarity a b
     = SimpleSimilarityMatcher_calculate_similarity b a
   \<and> 0 \<le> SimpleSimilarityMatcher_calculate_similarity a b
   \<and> SimpleSimilarityMatcher_calculate_similarity a b \<le> 1
   \<and> SimpleSimilarityMatcher_calculate_similarity [] x = 0
   \<and> SimpleSimilarityMatcher_calculate_similarity x [] = 0
   \<and> ((\<exists>c \<in> set a. \<not> py_isspace c)
        \<longrightarrow> SimpleSimilarityMatcher_calculate_similarity a a = 1)
   \<and> ((\<forall>c \<in> set a. py_isspace c)
        \<longrightarrow> SimpleSimilarityMatcher_calculate_similarity a b = 0)"
proof -
  have "SimpleSimilarityMatcher_calculate_similarity [] x = 0"
    and "SimpleSimilarityMatcher_calculate_similarity x [] = 0"
    by (simp_all add: SimpleSimilarityMatcher_calculate_similarity_def)
  then show ?thesis
    using simple_similarity_commute[of a b] simple_similarity_range[of a b]
      simple_similarity_self[of a] simple_similarity_blank[of a b]
    by blast
qed

theorem simple_similarity_properties_witness:
  "(\<exists>c \<in> set ''Logo design''. \<not> py_isspace c)
   \<and> SimpleSimilarityMatcher_calculate_similarity ''Logo design'' ''Logo design'' = 1
   \<and> SimpleSimilarityMatcher_calculate_similarity ''Logo design'' ''a logo''
       = SimpleSimilarityMatcher_calculate_similarity ''a logo'' ''Logo design''
   \<and> SimpleSimilarityMatcher_calculate_similarity ''Logo design'' ''a logo'' = 1 / 3"
proof -
  have nonblank: "\<exists>c \<in> set ''Logo design''. \<not> py_isspace c"
    by (simp add: py_isspace_def)
  have score: "SimpleSimilarityMatcher_calculate_similarity ''Logo design'' ''a logo'' = 1 / 3"
    by code_simp
  show ?thesis
    using nonblank score simple_similarity_properties[of "''Logo design''" "''a logo''" "[]"]
    by simp
qed

text \<open>
  The claim as the specification states it, \<open>score(a, a) == 1\<close> for every non-empty
  \<open>a\<close>, fails for the text of one space.
\<close>

theorem simple_similarity_blank_counterexample:
  "'' '' \<noteq> [] \<and> SimpleSimilarityMatcher_calculate_similarity '' '' '' '' = 0"
  by (simp add: SimpleSimilarityMatcher_calculate_similarity_def Let_def py_split_def
        py_lower_def py_isspace_def lower_char_def)

section \<open>The ledger\<close>

subsection \<open>Dictionaries\<close>

lemma map_of_dict_set: "map_of (dict_set d k v) = (map_of d)(k \<mapsto> v)"
  by (simp add: dict_set_def update_conv')

lemma dict_get_dict_set:
  "dict_get (dict_set d k v) k' dflt = (if k' = k then v else dict_get d k' dflt)"
  by (simp add: dict_get_def map_of_dict_set)

lemma has_key_dict_set: "has_key (dict_set d k v) k' = (k' = k \<or> has_key d k')"
  by (auto simp add: has_key_def map_of_dict_set)

subsection \<open>One call of record\_sent\_message\<close>

lemmas record_defs = record_try_def record_with_body_def Let_def append_line_def open_append_def



lemma record_try_index_unchanged:
  "record_try fault now dm w data = (Some e, data1, dm1, w1) \<Longrightarrow> fault \<noteq> CloseFault \<Longrightarrow> dm1 = dm"
  by (auto simp: record_defs split: if_splits sum.splits prod.splits)

lemma record_try_rejected_row:
  "record_try fault now dm w data = (raised, data1, dm1, w1) \<Longrightarrow>
   dict_writer_row (dict_set data ''timestamp'' (Str now)) = Inl e \<Longrightarrow> dm1 = dm"
  by (auto simp: record_defs split: if_splits sum.splits prod.splits)

lemma record_try_mono:
  "record_try fault now dm w data = (raised, data1, dm1, w1) \<Longrightarrow>
     sent_messages dm \<subseteq> sent_messages dm1 \<and> csv_file dm1 = csv_file dm"
  by (auto simp: record_defs split: if_splits sum.splits prod.splits)

lemma record_try_trace:
  "record_try fault now dm w data = (raised, data1, dm1, w1) \<Longrightarrow>
     actions w1 = actions w \<and> stdout w1 = stdout w"
  by (auto simp: record_defs split: if_splits sum.splits prod.splits)

lemma record_try_close_fault:
  assumes "record_try CloseFault now dm w data = (raised, data1, dm1, w1)"
    and "dict_writer_row (dict_set data ''timestamp'' (Str now)) = Inr cells"
    and "map_of data ''link'' = Some link"
  shows "raised = Some OSError \<and> is_message_sent dm1 link"
  using assms
  by (auto simp: record_defs is_message_sent_def has_key_def dict_get_def map_of_dict_set
      split: if_splits sum.splits prod.splits)

lemma record_try_success:
  assumes "record_try fault now dm w data = (None, data1, dm1, w1)"
  shows "data1 = dict_set data ''timestamp'' (Str now)"
    and "\<exists>cells. dict_writer_row data1 = Inr cells \<and>
           files w1 (csv_file dm) =
             Some ((case files w (csv_file dm) of None \<Rightarrow> [Row fieldnames] | Some ls \<Rightarrow> ls)
                   @ [Row cells])"
    and "dm1 = (if has_key data1 ''link''
                then dm\<lparr>sent_messages := insert (dict_get data1 ''link'' PyNone) (sent_messages dm)\<rparr>
                else dm)"
  using assms
  by (auto simp: record_defs split: if_splits sum.splits prod.splits option.splits)


subsection \<open>The ledger under send\_message and under the loop\<close>

lemma find_first_fst: "fst (find_first f selectors w) = first_match f selectors"
  by (induction selectors arbitrary: w) (auto split: lookup.splits)

lemma find_first_world:
  "files (snd (find_first f selectors w)) = files w
   \<and> stdout (snd (find_first f selectors w)) = stdout w
   \<and> extraction_cycles (snd (find_first f selectors w)) = extraction_cycles w"
  by (induction selectors arbitrary: w)
     (auto simp: act_def extraction_cycles_def split: lookup.splits)

lemma find_first_eq:
  "find_first f selectors w = (first_match f selectors, find_trail f selectors w)"
  using find_first_fst[of f selectors w] by (simp add: find_trail_def prod_eq_iff)

lemma find_trail_world:
  "files (find_trail f selectors w) = files w"
  "stdout (find_trail f selectors w) = stdout w"
  "extraction_cycles (find_trail f selectors w) = extraction_cycles w"
  by (simp_all add: find_trail_def find_first_world)

lemma act_world: "files (act a w) = files w" "stdout (act a w) = stdout w"
  by (simp_all add: act_def)

lemma submit_message_files:
  "files (snd (submit_message cfg page w request_data)) = files w"
  by (simp add: submit_message_def find_first_eq find_trail_world act_world Let_def
      split: sum.splits option.splits)

lemma send_message_ledger:
  assumes "send_message cfg page fault now dm w rd = (sent, rd1, dm1, w1)"
  shows "sent_messages dm \<subseteq> sent_messages dm1 \<and> csv_file dm1 = csv_file dm"
  using assms
  by (auto simp: send_message_def record_sent_message_def
      split: if_splits prod.splits option.splits dest: record_try_mono)

lemma messaging_loop_ledger:
  assumes "messaging_loop cfg steps n dm w = (n', dicts, dm', w')"
  shows "sent_messages dm \<subseteq> sent_messages dm' \<and> csv_file dm' = csv_file dm"
  using assms
proof (induction steps arbitrary: n dm w n' dicts dm' w')
  case Nil
  then show ?case by simp
next
  case (Cons step steps)
  obtain page fault now rd where step: "step = (page, fault, now, rd)" by (metis prod_cases4)
  obtain sent rd1 dm1 w1 where s: "send_message cfg page fault now dm w rd = (sent, rd1, dm1, w1)"
    by (metis prod_cases4)
  obtain n2 ds2 dm2 w2 where
    l: "messaging_loop cfg steps (if sent then n + 1 else n) dm1 w1 = (n2, ds2, dm2, w2)"
    by (metis prod_cases4)
  have fin: "dm' = dm2" using Cons.prems by (simp add: step s l)
  show ?case
    using send_message_ledger[OF s] Cons.IH[OF l] unfolding fin by auto
qed

lemma messaging_loop_append:
  "messaging_loop cfg (xs @ ys) n dm w =
     (case messaging_loop cfg xs n dm w of
        (n1, ds1, dm1, w1) \<Rightarrow>
          (case messaging_loop cfg ys n1 dm1 w1 of
             (n2, ds2, dm2, w2) \<Rightarrow> (n2, ds1 @ ds2, dm2, w2)))"
  by (induction xs arbitrary: n dm w) (auto split: prod.splits)

lemma send_message_skip:
  assumes "is_message_sent dm (dict_get rd ''link'' (Str []))"
  shows "send_message cfg page fault now dm w rd = (False, rd, dm, w)"
  using assms by (simp add: send_message_def)

text \<open>
  Claim C4. When the link of a record is in the ledger as \<open>send_message\<close> starts, the
  call returns False and leaves the dictionary, the ledger and the world as they were: no
  call is made on the browser and nothing is written. In the loop of a run the same holds
  wherever the record stands, once its link is in the ledger at the start of the run: the
  run is the one without that record.
\<close>

theorem send_message_skips_recorded_link:
  assumes "is_message_sent dm (dict_get rd ''link'' (Str []))"
  shows "send_message cfg page fault now dm w rd = (False, rd, dm, w)
    \<and> messaging_loop cfg (before @ (page, fault, now, rd) # rest) n dm w =
        (case messaging_loop cfg before n dm w of
           (n1, ds1, dm1, w1) \<Rightarrow>
             (case messaging_loop cfg rest n1 dm1 w1 of
                (n2, ds2, dm2, w2) \<Rightarrow> (n2, ds1 @ rd # ds2, dm2, w2)))"
proof -
  obtain n1 ds1 dm1 w1 where b: "messaging_loop cfg before n dm w = (n1, ds1, dm1, w1)"
    by (metis prod_cases4)
  have "is_message_sent dm1 (dict_get rd ''link'' (Str []))"
    using messaging_loop_ledger[OF b] assms by (auto simp: is_message_sent_def)
  then have skip: "send_message cfg page fault now dm1 w1 rd = (False, rd, dm1, w1)"
    by (rule send_message_skip)
  show ?thesis
    using send_message_skip[OF assms]
    by (simp add: messaging_loop_append b skip split: prod.splits)
qed

theorem send_message_skips_recorded_link_witness:
  "is_message_sent ledger_with_logo (dict_get request_logo ''link'' (Str []))
   \<and> send_message cfg_example page_all_found NoFault ''2024-05-01T10:00:00'' ledger_with_logo
         world_empty request_logo
       = (False, request_logo, ledger_with_logo, world_empty)
   \<and> actions (snd (snd (snd (send_message cfg_example page_all_found NoFault
         ''2024-05-01T10:00:00'' ledger_with_logo world_empty request_logo)))) = []"
proof -
  have sent: "is_message_sent ledger_with_logo (dict_get request_logo ''link'' (Str []))"
    by (simp add: is_message_sent_def ledger_with_logo_def request_logo_def dict_get_def)
  from send_message_skips_recorded_link[OF sent, of cfg_example page_all_found NoFault
      "''2024-05-01T10:00:00''" world_empty "[]" "[]" 0]
  have "send_message cfg_example page_all_found NoFault ''2024-05-01T10:00:00'' ledger_with_logo
         world_empty request_logo = (False, request_logo, ledger_with_logo, world_empty)"
    by (rule conjunct1)
  with sent show ?thesis by (simp add: world_empty_def)
qed

subsection \<open>A recorded link, in the run and after a reload\<close>

lemma recorded_link_stays_sent:
  assumes ok: "record_try fault now dm w data = (None, data1, dm1, w1)"
    and link: "map_of data ''link'' = Some (Str L)"
    and later: "messaging_loop cfg steps n dm1 w1 = (n', dicts, dm2, w2)"
  shows "is_message_sent dm1 (Str L) \<and> is_message_sent dm2 (Str L)"
proof -
  note s = record_try_success[OF ok]
  from link s(1) have link1: "map_of data1 ''link'' = Some (Str L)"
    by (simp add: map_of_dict_set)
  have now: "is_message_sent dm1 (Str L)"
    using s(3) link1 by (auto simp: is_message_sent_def has_key_def dict_get_def)
  then show ?thesis
    using messaging_loop_ledger[OF later] by (auto simp: is_message_sent_def)
qed

text \<open>
  Claim C5. After a call of \<open>record_sent_message\<close> that raised nothing, for a record
  whose link is the string \<open>L\<close>, \<open>is_message_sent L\<close> holds and still holds after any
  further steps of the run (\<open>recorded_link_stays_sent\<close>). The claim also promises
  \<open>L\<close> to a fresh ledger that reloads the file, and there the code falls short of it.
  \<open>record_sent_message\<close> writes the header only when there is no file. With a file
  that exists and is empty, the append succeeds, the row is the first line of the file,
  \<open>csv.DictReader\<close> takes the first line for the header, and the reloaded ledger
  does not have the link:
\<close>

theorem reload_after_blank_file_loses_link:
  "fst (record_try NoFault ''2024-05-01T10:00:00'' ledger_empty world_blank_file request_logo) = None
   \<and> is_message_sent
        (fst (snd (snd (record_try NoFault ''2024-05-01T10:00:00'' ledger_empty world_blank_file
           request_logo))))
        (Str ''https://simbi.com/r/1'')
   \<and> \<not> is_message_sent
        (fst (SimbiDataManager_init ''inbox.csv''
           (snd (snd (snd (record_try NoFault ''2024-05-01T10:00:00'' ledger_empty world_blank_file
              request_logo))))))
        (Str ''https://simbi.com/r/1'')"
  by (simp add: record_defs dict_writer_row_def fieldnames_def dict_get_def dict_set_def
      has_key_def ledger_empty_def world_blank_file_def request_logo_def
      SimbiDataManager_init_def load_sent_messages_def is_message_sent_def oversized_def
      field_size_limit_def)

text \<open>
  The write path and the read path also disagree on long fields: \<open>csv.writer\<close> writes
  a field of any length, and \<open>csv.reader\<close> raises on one longer than 131072
  characters. A record with such a description is appended to a new file without an
  error, and the reload stops at its row before the link is added.
\<close>

lemma long_text_length: "length long_text = 131073"
  unfolding long_text_def by (rule length_replicate)

lemma reload_after_long_field_example:
  "fst (record_try NoFault ''2024-05-01T10:00:00'' ledger_empty world_empty request_long_text) = None
   \<and> is_message_sent
        (fst (snd (snd (record_try NoFault ''2024-05-01T10:00:00'' ledger_empty world_empty
           request_long_text))))
        (Str ''https://simbi.com/r/5'')
   \<and> \<not> is_message_sent
        (fst (SimbiDataManager_init ''inbox.csv''
           (snd (snd (snd (record_try NoFault ''2024-05-01T10:00:00'' ledger_empty world_empty
              request_long_text))))))
        (Str ''https://simbi.com/r/5'')"
  by (simp add: record_defs dict_writer_row_def fieldnames_def dict_get_def dict_set_def
      has_key_def ledger_empty_def world_empty_def request_long_text_def
      SimbiDataManager_init_def load_sent_messages_def is_message_sent_def oversized_def
      field_size_limit_def long_text_length)

section \<open>A write that fails\<close>

lemma record_sent_message_eq:
  "record_try fault now dm w data = (raised, data1, dm1, w1) \<Longrightarrow>
   record_sent_message fault now dm w data =
     (data1, dm1, if raised = None then w1 else print_line ''Error recording sent message'' w1)"
  by (auto simp: record_sent_message_def)

text \<open>
  Claim C1, as the code has it. When the \<open>try\<close> block of \<open>record_sent_message\<close>
  raises, the \<open>except\<close> clause prints a line and the function returns as it does
  after a write that worked: nothing reaches the caller, and \<open>send_message\<close>, whose
  send button was clicked, returns True. The set of sent links is as before when the
  exception comes from \<open>open\<close>, \<open>writeheader\<close> or \<open>writerow\<close>: when the disk
  fails there, or when \<open>writerow\<close> rejects a key that is not a field name.
\<close>

theorem failed_write_is_swallowed:
  assumes notsent: "\<not> is_message_sent dm (dict_get rd ''link'' (Str []))"
    and submitted: "submit_message cfg page w rd = (Some message_text, w1)"
    and failed: "record_try fault now dm w1 (dict_set rd ''message_sent'' (Str message_text))
                   = (Some e, rd1, dm1, w2)"
  shows "record_sent_message fault now dm w1 (dict_set rd ''message_sent'' (Str message_text))
           = (rd1, dm1, print_line ''Error recording sent message'' w2)
    \<and> send_message cfg page fault now dm w rd
           = (True, rd1, dm1, print_line ''Error recording sent message'' w2)
    \<and> (fault \<noteq> CloseFault
         \<or> isl (dict_writer_row
                  (dict_set (dict_set rd ''message_sent'' (Str message_text)) ''timestamp''
                     (Str now)))
        \<longrightarrow> sent_messages dm1 = sent_messages dm)"
proof -
  have "dm1 = dm" if "fault \<noteq> CloseFault"
    using record_try_index_unchanged[OF failed that] .
  moreover have "dm1 = dm"
    if "isl (dict_writer_row
              (dict_set (dict_set rd ''message_sent'' (Str message_text)) ''timestamp'' (Str now)))"
    using that record_try_rejected_row[OF failed] by (auto simp: isl_def)
  ultimately show ?thesis
    using notsent submitted record_sent_message_eq[OF failed]
    by (auto simp: send_message_def)
qed


theorem failed_write_is_swallowed_witness:
  "\<not> is_message_sent ledger_empty (dict_get request_logo ''link'' (Str []))
   \<and> fst (submit_message cfg_example page_all_found world_empty request_logo) = Some ''Hi, I can help''
   \<and> fst (record_try RowFault ''2024-05-01T10:00:00'' ledger_empty
         (snd (submit_message cfg_example page_all_found world_empty request_logo))
         (dict_set request_logo ''message_sent'' (Str ''Hi, I can help''))) = Some OSError
   \<and> fst (send_message cfg_example page_all_found RowFault ''2024-05-01T10:00:00''
         ledger_empty world_empty request_logo) = True
   \<and> sent_messages (fst (snd (snd (send_message cfg_example page_all_found RowFault
         ''2024-05-01T10:00:00'' ledger_empty world_empty request_logo)))) = {}"
proof -
  define s where "s = submit_message cfg_example page_all_found world_empty request_logo"
  define r where "r = record_try RowFault ''2024-05-01T10:00:00'' ledger_empty (snd s)
         (dict_set request_logo ''message_sent'' (Str ''Hi, I can help''))"
  have notsent: "\<not> is_message_sent ledger_empty (dict_get request_logo ''link'' (Str []))"
    by (simp add: is_message_sent_def ledger_empty_def)
  have s1: "fst s = Some ''Hi, I can help''" unfolding s_def by code_simp
  then have submitted: "submit_message cfg_example page_all_found world_empty request_logo
      = (Some ''Hi, I can help'', snd s)"
    unfolding s_def by (simp add: prod_eq_iff)
  have r1: "fst r = Some OSError" unfolding r_def s_def by code_simp
  then have failed: "record_try RowFault ''2024-05-01T10:00:00'' ledger_empty (snd s)
         (dict_set request_logo ''message_sent'' (Str ''Hi, I can help''))
       = (Some OSError, fst (snd r), fst (snd (snd r)), snd (snd (snd r)))"
    unfolding r_def by (simp add: prod_eq_iff)
  have "sent_messages ledger_empty = {}" by (simp add: ledger_empty_def)
  then show ?thesis
    using failed_write_is_swallowed[OF notsent submitted failed] notsent s1 r1
    unfolding r_def s_def by simp
qed

text \<open>
  The claim as the specification states it fails when \<open>open\<close> raises: the write has
  failed, \<open>send_message\<close> returns True, and the error is only printed.
\<close>

theorem failed_write_counterexample:
  "fst (record_try OpenFault ''2024-05-01T10:00:00'' ledger_empty
         (snd (submit_message cfg_example page_all_found world_empty request_logo))
         (dict_set request_logo ''message_sent'' (Str ''Hi, I can help''))) = Some OSError
   \<and> fst (send_message cfg_example page_all_found OpenFault ''2024-05-01T10:00:00''
         ledger_empty world_empty request_logo) = True
   \<and> stdout (snd (snd (snd (send_message cfg_example page_all_found OpenFault
         ''2024-05-01T10:00:00'' ledger_empty world_empty request_logo))))
       = [''Error recording sent message'']"
  by code_simp

text \<open>
  An exception raised when the \<open>with\<close> block closes the file comes after
  \<open>self.sent_messages.add\<close>: the link is in the set although the write failed.
\<close>

lemma close_fault_example:
  "fst (record_try CloseFault ''2024-05-01T10:00:00'' ledger_empty world_empty request_logo)
     = Some OSError
   \<and> is_message_sent
        (fst (snd (snd (record_try CloseFault ''2024-05-01T10:00:00'' ledger_empty world_empty
           request_logo))))
        (Str ''https://simbi.com/r/1'')"
  by code_simp

section \<open>What the two operations change in the caller's dictionary\<close>









section \<open>Which elements become records\<close>

lemma first_match_Inl: "first_match f selectors = Inl e \<Longrightarrow> e = WebDriverException"
  by (induction selectors) (auto split: lookup.splits)

lemma lookup_raises_iff:
  "lookup_raises element \<longleftrightarrow>
     isl (first_match element title_selectors) \<or> isl (first_match element user_selectors)
     \<or> isl (first_match element desc_selectors) \<or> isl (first_match element link_selectors)"
  by (auto simp: lookup_raises_def isl_def dest: first_match_Inl)

lemma extract_request_data_fst:
  "fst (extract_request_data element w) =
     (if lookup_raises element then Inl WebDriverException else Inr (request_data_of element))"
  unfolding lookup_raises_iff
  by (cases "first_match element title_selectors"; cases "first_match element user_selectors";
      cases "first_match element desc_selectors"; cases "first_match element link_selectors")
     (auto simp: extract_request_data_def find_first_eq request_data_of_def field_of_def
        dict_set_def split: option.splits dest: first_match_Inl)

lemma map_of_field_of:
  "map_of (field_of k resolved v) k' =
     (if k' = k then (case resolved of Inr (Some x) \<Rightarrow> Some (v x) | _ \<Rightarrow> None) else None)"
  by (simp add: field_of_def split: sum.splits option.splits)

lemma map_of_request_data_of:
  "map_of (request_data_of element) ''request_title'' =
     (case first_match element title_selectors of
        Inr (Some t) \<Rightarrow> Some (Str (py_strip (elem_text t))) | _ \<Rightarrow> None)"
  "map_of (request_data_of element) ''user_name'' =
     (case first_match element user_selectors of
        Inr (Some u) \<Rightarrow> Some (Str (py_strip (elem_text u))) | _ \<Rightarrow> None)"
  "map_of (request_data_of element) ''user_request_text'' =
     (case first_match element desc_selectors of
        Inr (Some d) \<Rightarrow> Some (Str (py_strip (elem_text d))) | _ \<Rightarrow> None)"
  "map_of (request_data_of element) ''link'' =
     (case first_match element link_selectors of
        Inr (Some l) \<Rightarrow> Some (elem_href l) | _ \<Rightarrow> None)"
  by (simp_all add: request_data_of_def map_add_def map_of_field_of split: sum.splits option.splits)








section \<open>The crawl loop\<close>

lemma next_loop_fst: "fst (next_loop f selectors w) = fst (next_loop f selectors w')"
  by (induction selectors arbitrary: w w') (auto split: lookup.splits)

lemma go_to_next_page_fst: "fst (go_to_next_page page w) = next_page_reached page"
  unfolding go_to_next_page_def next_page_reached_def by (rule next_loop_fst)

lemma next_loop_cycles: "extraction_cycles (snd (next_loop f selectors w)) = extraction_cycles w"
  by (induction selectors arbitrary: w)
     (auto simp: act_def extraction_cycles_def split: lookup.splits)

lemma next_loop_all_missing:
  "\<forall>s \<in> set selectors. f s = Missing \<Longrightarrow> fst (next_loop f selectors w) = False"
  by (induction selectors arbitrary: w) auto

lemma extract_request_data_cycles:
  "extraction_cycles (snd (extract_request_data element w)) = extraction_cycles w"
  by (simp add: extract_request_data_def find_first_eq find_trail_world Let_def split: sum.splits)

lemma extract_elements_cycles:
  "extraction_cycles (snd (extract_elements elements requests w)) = extraction_cycles w"
proof (induction elements arbitrary: requests w)
  case Nil
  then show ?case by simp
next
  case (Cons element rest)
  obtain r w1 where x: "extract_request_data element w = (r, w1)" by force
  then have "extraction_cycles w1 = extraction_cycles w"
    using extract_request_data_cycles[of element w] by simp
  with Cons x show ?case by (cases r) auto
qed

lemma extraction_cycles_act:
  "extraction_cycles (act a w) = (if a = WaitAll then Suc (extraction_cycles w) else extraction_cycles w)"
  by (simp add: act_def extraction_cycles_def)

lemma extract_requests_from_page_cycles:
  "extraction_cycles (snd (extract_requests_from_page page w)) = Suc (extraction_cycles w)"
  by (simp add: extract_requests_from_page_def extract_elements_cycles extraction_cycles_act
      split: option.splits)

lemma cycle_count:
  "extraction_cycles (snd (go_to_next_page page (snd (extract_requests_from_page page w))))
     = Suc (extraction_cycles w)"
  by (simp add: go_to_next_page_def next_loop_cycles extract_requests_from_page_cycles)

lemma scrape_loop_step:
  "scrape_loop site (Suc n) k requests_data w =
     (let p = extract_requests_from_page (site k) w; q = go_to_next_page (site k) (snd p)
      in if next_page_reached (site k)
         then scrape_loop site n (Suc k) (requests_data @ fst p) (snd q)
         else (requests_data @ fst p, snd q))"
  using go_to_next_page_fst[of "site k" "snd (extract_requests_from_page (site k) w)"]
  by (auto simp: Let_def split: prod.splits bool.splits)

lemma scrape_loop_bound:
  "extraction_cycles (snd (scrape_loop site n k requests_data w)) \<le> extraction_cycles w + n"
proof (induction n arbitrary: k requests_data w)
  case 0
  then show ?case by simp
next
  case (Suc n)
  let ?p = "extract_requests_from_page (site k) w"
  let ?q = "go_to_next_page (site k) (snd ?p)"
  show ?case
    using Suc.IH[of "Suc k" "requests_data @ fst ?p" "snd ?q"] cycle_count[of "site k" w]
    by (simp add: scrape_loop_step Let_def del: scrape_loop.simps)
qed

lemma scrape_loop_stops:
  assumes "m < n" and "\<forall>j < m. next_page_reached (site (k + j))"
    and "\<not> next_page_reached (site (k + m))"
  shows "extraction_cycles (snd (scrape_loop site n k requests_data w))
           = extraction_cycles w + Suc m"
  using assms
proof (induction m arbitrary: n k requests_data w)
  case 0
  then obtain n' where n: "n = Suc n'" by (cases n) auto
  from 0 show ?case
    unfolding n by (simp add: scrape_loop_step Let_def cycle_count del: scrape_loop.simps)
next
  case (Suc m)
  then obtain n' where n: "n = Suc n'" and mn: "m < n'" by (cases n) auto
  let ?p = "extract_requests_from_page (site k) w"
  let ?q = "go_to_next_page (site k) (snd ?p)"
  have here: "next_page_reached (site k)"
    using Suc.prems(2)[rule_format, of 0] by simp
  have later: "\<forall>j < m. next_page_reached (site (Suc k + j))"
  proof (intro allI impI)
    fix j assume "j < m"
    then show "next_page_reached (site (Suc k + j))"
      using Suc.prems(2)[rule_format, of "Suc j"] by simp
  qed
  have stop: "\<not> next_page_reached (site (Suc k + m))"
    using Suc.prems(3) by simp
  show ?case
    unfolding n
    using Suc.IH[OF mn later stop, of "requests_data @ fst ?p" "snd ?q"] cycle_count[of "site k" w] here
    by (simp add: scrape_loop_step Let_def del: scrape_loop.simps)
qed

text \<open>
  Claim C7. An extraction cycle is a call of \<open>extract_requests_from_page\<close>, which asks
  the browser once for the elements of the page. \<open>scrape_requests\<close> runs at most
  \<open>max_pages\<close> cycles whatever the pages offer; when \<open>go_to_next_page\<close> returns
  True on the first \<open>k\<close> pages and False on the next one, below the bound, the loop
  ends after \<open>k + 1\<close> cycles; and \<open>go_to_next_page\<close> returns False on a page where
  no next-page locator finds an element. Without an argument the bound is the
  configuration's \<open>max_pages\<close>.
\<close>

theorem crawl_is_bounded:
  "extraction_cycles (snd (scrape_requests cfg start_fails site (Some limit) w))
     \<le> extraction_cycles w + nat limit
   \<and> (\<not> start_fails \<and> int k < limit \<and> (\<forall>j < k. next_page_reached (site j))
        \<and> \<not> next_page_reached (site k)
      \<longrightarrow> extraction_cycles (snd (scrape_requests cfg start_fails site (Some limit) w))
            = extraction_cycles w + Suc k)
   \<and> ((\<forall>s \<in> set next_selectors. next_button page s = Missing)
        \<longrightarrow> \<not> fst (go_to_next_page page w'))
   \<and> scrape_requests cfg start_fails site None w
       = scrape_requests cfg start_fails site (Some (max_pages cfg)) w"
proof -
  let ?w1 = "act (Get (Str (service_url cfg))) w"
  have w1: "extraction_cycles ?w1 = extraction_cycles w"
    by (simp add: extraction_cycles_act)
  have bound: "extraction_cycles (snd (scrape_requests cfg start_fails site (Some limit) w))
     \<le> extraction_cycles w + nat limit"
    using scrape_loop_bound[of site "nat limit" 0 "[]" ?w1] w1
    by (simp add: scrape_requests_def Let_def)
  have stops: "extraction_cycles (snd (scrape_requests cfg start_fails site (Some limit) w))
            = extraction_cycles w + Suc k"
    if "\<not> start_fails" "int k < limit" "\<forall>j < k. next_page_reached (site j)"
       "\<not> next_page_reached (site k)"
  proof -
    have "k < nat limit" using that(2) by simp
    then show ?thesis
      using scrape_loop_stops[of k "nat limit" site 0 "[]" ?w1] that w1
      by (simp add: scrape_requests_def Let_def)
  qed
  have missing: "\<not> fst (go_to_next_page page w')"
    if "\<forall>s \<in> set next_selectors. next_button page s = Missing"
    using next_loop_all_missing[OF that, of w'] by (simp add: go_to_next_page_def)
  have dflt: "scrape_requests cfg start_fails site None w
       = scrape_requests cfg start_fails site (Some (max_pages cfg)) w"
    by (simp add: scrape_requests_def)
  show ?thesis using bound stops missing dflt by blast
qed

theorem crawl_is_bounded_witness:
  "(0::int) < 10 \<and> int 2 < 10
   \<and> next_page_reached (site_of_three 0) \<and> next_page_reached (site_of_three 1)
   \<and> \<not> next_page_reached (site_of_three 2)
   \<and> extraction_cycles (snd (scrape_requests cfg_example False site_of_three (Some 10) world_empty))
       = 3
   \<and> \<not> fst (go_to_next_page page_last world_empty)"
proof -
  have r0: "next_page_reached (site_of_three 0)" by code_simp
  have r1: "next_page_reached (site_of_three 1)" by code_simp
  have r2: "\<not> next_page_reached (site_of_three 2)" by code_simp
  have before: "\<forall>j < 2. next_page_reached (site_of_three j)"
    using r0 r1 by (auto simp: less_Suc_eq numeral_2_eq_2)
  have missing: "\<forall>s \<in> set next_selectors. next_button page_last s = Missing"
    by (simp add: page_last_def)
  have start: "extraction_cycles world_empty = 0"
    by (simp add: extraction_cycles_def world_empty_def)
  note t = crawl_is_bounded[of cfg_example False site_of_three 10 world_empty 2 page_last world_empty]
  have "extraction_cycles (snd (scrape_requests cfg_example False site_of_three (Some 10) world_empty))
       = 3"
    using t before r2 start by simp
  moreover have "\<not> fst (go_to_next_page page_last world_empty)"
    using t missing by blast
  ultimately show ?thesis using r0 r1 r2 by simp
qed


section \<open>The records a crawl returns\<close>

text \<open>
  Every record \<open>scrape_requests\<close> returns was built from an element, so its title and
  its description, when present, are stripped texts: the two fields the grouping reads
  are strings.
\<close>

lemma request_text_request_data_of: "\<exists>t. request_text (request_data_of element) = Inr t"
  by (simp add: request_text_def dict_get_def map_of_request_data_of(1,3)
      split: sum.splits option.splits)

lemma extract_elements_records:
  "set (fst (extract_elements elements requests w)) \<subseteq> set requests \<union> request_data_of ` set elements"
proof (induction elements arbitrary: requests w)
  case Nil
  then show ?case by simp
next
  case (Cons element rest)
  obtain r w1 where x: "extract_request_data element w = (r, w1)" by force
  then have r: "r = (if lookup_raises element then Inl WebDriverException
                     else Inr (request_data_of element))"
    using extract_request_data_fst[of element w] by simp
  show ?case
    using Cons.IH[of requests w1] Cons.IH[of "requests @ [request_data_of element]" w1]
    by (auto simp: x r)
qed

lemma extract_requests_from_page_records:
  "set (fst (extract_requests_from_page page w)) \<subseteq> range request_data_of"
proof (cases "request_elements page")
  case None
  then show ?thesis by (simp add: extract_requests_from_page_def)
next
  case (Some elements)
  have "set (fst (extract_elements elements [] (act WaitAll w))) \<subseteq> request_data_of ` set elements"
    using extract_elements_records[of elements "[]" "act WaitAll w"] by simp
  also have "\<dots> \<subseteq> range request_data_of" by blast
  finally show ?thesis using Some by (simp add: extract_requests_from_page_def)
qed

lemma scrape_loop_records:
  "set (fst (scrape_loop site n k requests_data w)) \<subseteq> set requests_data \<union> range request_data_of"
proof (induction n arbitrary: k requests_data w)
  case 0
  then show ?case by simp
next
  case (Suc n)
  let ?p = "extract_requests_from_page (site k) w"
  let ?q = "go_to_next_page (site k) (snd ?p)"
  show ?case
    using Suc.IH[of "Suc k" "requests_data @ fst ?p" "snd ?q"]
      extract_requests_from_page_records[of "site k" w]
    by (auto simp: scrape_loop_step Let_def simp del: scrape_loop.simps)
qed

lemma scraped_records_have_texts:
  "\<forall>r \<in> set (fst (scrape_requests cfg start_fails site max_pages_arg w)).
     \<exists>t. request_text r = Inr t"
proof
  fix r
  assume "r \<in> set (fst (scrape_requests cfg start_fails site max_pages_arg w))"
  then have "r \<in> range request_data_of"
    using scrape_loop_records[of site _ 0 "[]" "act (Get (Str (service_url cfg))) w"]
    by (auto simp: scrape_requests_def Let_def split: if_splits)
  then show "\<exists>t. request_text r = Inr t"
    using request_text_request_data_of by blast
qed

section \<open>Grouping\<close>

text \<open>
  Both loops of \<open>group_from\<close> are first read on positions: with records whose two
  text fields are strings, the groups are the records at the positions that
  \<open>group_indices\<close> collects.
\<close>

lemma enumerate_drop_nth:
  "enumerate i (drop i xs) = map (\<lambda>j. (j, xs ! j)) [i..<length xs]"
  by (rule nth_equalityI) (simp_all add: nth_enumerate_eq)

lemma filter_neq_notin: "x \<notin> set xs \<Longrightarrow> filter (\<lambda>y. y \<noteq> x \<and> Q y) xs = filter Q xs"
  by (intro filter_cong) auto

lemma scan_others_indices:
  assumes "distinct J" and "\<forall>j \<in> set J. request_text (reqs ! j) = Inr (text_of (reqs ! j))"
  shows "scan_others calc th txt (map (\<lambda>j. (j, reqs ! j)) J) grp P =
           Inr (grp @ map ((!) reqs) (filter (\<lambda>j. j \<notin> P \<and> th \<le> calc txt (text_of (reqs ! j))) J),
                P \<union> set (filter (\<lambda>j. j \<notin> P \<and> th \<le> calc txt (text_of (reqs ! j))) J))"
  using assms
proof (induction J arbitrary: grp P)
  case Nil
  then show ?case by simp
next
  case (Cons j J)
  let ?Q = "\<lambda>P j. j \<notin> P \<and> th \<le> calc txt (text_of (reqs ! j))"
  have IH: "scan_others calc th txt (map (\<lambda>j. (j, reqs ! j)) J) grp' P' =
           Inr (grp' @ map ((!) reqs) (filter (?Q P') J), P' \<union> set (filter (?Q P') J))"
    for grp' P'
    using Cons by simp
  have j: "request_text (reqs ! j) = Inr (text_of (reqs ! j))"
    using Cons.prems by simp
  have notin: "j \<notin> set J"
    using Cons.prems by simp
  show ?case
  proof (cases "?Q P j")
    case True
    have same: "filter (?Q (insert j P)) J = filter (?Q P) J"
      using filter_neq_notin[OF notin, of "?Q P"] by simp
    have "scan_others calc th txt (map (\<lambda>j. (j, reqs ! j)) (j # J)) grp P
        = scan_others calc th txt (map (\<lambda>j. (j, reqs ! j)) J) (grp @ [reqs ! j]) (insert j P)"
      using True j by simp
    also have "\<dots> = Inr ((grp @ [reqs ! j]) @ map ((!) reqs) (filter (?Q (insert j P)) J),
                        insert j P \<union> set (filter (?Q (insert j P)) J))"
      by (rule IH)
    finally show ?thesis
      using True unfolding same by simp
  next
    case False
    have "scan_others calc th txt (map (\<lambda>j. (j, reqs ! j)) (j # J)) grp P
        = scan_others calc th txt (map (\<lambda>j. (j, reqs ! j)) J) grp P"
      using False j by auto
    then show ?thesis
      using False IH[of grp P] by auto
  qed
qed

lemma group_from_indices:
  assumes "\<forall>r \<in> set reqs. request_text r = Inr (text_of r)" and "set I \<subseteq> {..<length reqs}"
  shows "group_from calc th reqs (map (\<lambda>i. (i, reqs ! i)) I) groups P =
           Inr (groups @ map (map ((!) reqs))
                  (group_indices (\<lambda>i j. th \<le> calc (text_of (reqs ! i)) (text_of (reqs ! j)))
                     (length reqs) I P))"
  using assms(2)
proof (induction I arbitrary: groups P)
  case Nil
  then show ?case by simp
next
  case (Cons i I)
  let ?sim = "\<lambda>i j. th \<le> calc (text_of (reqs ! i)) (text_of (reqs ! j))"
  let ?n = "length reqs"
  have IH: "group_from calc th reqs (map (\<lambda>i. (i, reqs ! i)) I) groups' P' =
           Inr (groups' @ map (map ((!) reqs)) (group_indices ?sim ?n I P'))" for groups' P'
    using Cons by simp
  show ?case
  proof (cases "i \<in> P")
    case True
    then show ?thesis
      using IH[of groups P] by simp
  next
    case False
    let ?members = "filter (\<lambda>j. j \<notin> P \<and> ?sim i j) [i + 1..<?n]"
    have ok: "\<forall>j \<in> set [Suc i..<?n]. request_text (reqs ! j) = Inr (text_of (reqs ! j))"
      using assms(1) by simp
    have i: "request_text (reqs ! i) = Inr (text_of (reqs ! i))"
      using assms(1) Cons.prems by simp
    have same: "filter (\<lambda>j. j \<notin> insert i P \<and> ?sim i j) [Suc i..<?n] = ?members"
      by (intro filter_cong) auto
    have scan: "scan_others calc th (text_of (reqs ! i)) (enumerate (i + 1) (drop (i + 1) reqs))
                  [reqs ! i] (insert i P)
              = Inr (reqs ! i # map ((!) reqs) ?members, insert i P \<union> set ?members)"
      using scan_others_indices[OF distinct_upt ok, of calc th "text_of (reqs ! i)" "[reqs ! i]"
          "insert i P"]
      unfolding same by (simp add: enumerate_drop_nth)
    have "group_from calc th reqs (map (\<lambda>i. (i, reqs ! i)) (i # I)) groups P
        = group_from calc th reqs (map (\<lambda>i. (i, reqs ! i)) I)
            (groups @ [reqs ! i # map ((!) reqs) ?members]) (insert i P \<union> set ?members)"
      using False i scan by simp
    also have "\<dots> = Inr ((groups @ [reqs ! i # map ((!) reqs) ?members])
                 @ map (map ((!) reqs)) (group_indices ?sim ?n I (insert i P \<union> set ?members)))"
      by (rule IH)
    finally show ?thesis
      using False by (simp add: Let_def)
  qed
qed

lemma group_indices_props:
  "set (concat (group_indices sim n [k..<n] P)) = {k..<n} - P
   \<and> distinct (concat (group_indices sim n [k..<n] P))
   \<and> (\<forall>g \<in> set (group_indices sim n [k..<n] P). g \<noteq> [] \<and> sorted_wrt (<) g \<and> k \<le> hd g)
   \<and> sorted_wrt (<) (map hd (group_indices sim n [k..<n] P))
   \<and> length (group_indices sim n [k..<n] P) \<le> n - k"
proof (induction "n - k" arbitrary: k P)
  case 0
  then show ?case by simp
next
  case (Suc d)
  then have k: "k < n" and d: "d = n - Suc k" by auto
  have upt: "[k..<n] = k # [Suc k..<n]"
    using k by (simp add: upt_conv_Cons)
  show ?case
  proof (cases "k \<in> P")
    case True
    have eq: "group_indices sim n [k..<n] P = group_indices sim n [Suc k..<n] P"
      using True by (simp add: upt)
    have "{k..<n} = insert k {Suc k..<n}"
      using k by (metis set_upt list.simps(15) upt_conv_Cons)
    then have "{Suc k..<n} - P = {k..<n} - P"
      using True by (simp add: insert_Diff_if)
    then show ?thesis
      using Suc.hyps(1)[OF d, of P] unfolding eq by auto
  next
    case False
    define members where "members = filter (\<lambda>j. j \<notin> P \<and> sim k j) [k + 1..<n]"
    define rest where "rest = group_indices sim n [Suc k..<n] (insert k P \<union> set members)"
    have eq: "group_indices sim n [k..<n] P = (k # members) # rest"
      using False by (simp add: upt members_def rest_def Let_def)
    have m_set: "set members \<subseteq> {Suc k..<n} - P"
      by (auto simp: members_def)
    have m_sorted: "sorted_wrt (<) (k # members)"
      by (auto simp: members_def intro: sorted_wrt_filter)
    have m_dist: "distinct (k # members)"
      using m_set by (auto simp: members_def)
    note IH = Suc.hyps(1)[OF d, of "insert k P \<union> set members", folded rest_def]
    have r_set: "set (concat rest) = {Suc k..<n} - (insert k P \<union> set members)"
      using IH by blast
    have "set (concat ((k # members) # rest)) = {k..<n} - P"
      using r_set m_set False k by auto
    moreover have "distinct (concat ((k # members) # rest))"
      using IH m_dist r_set by auto
    moreover have "\<forall>g \<in> set ((k # members) # rest). g \<noteq> [] \<and> sorted_wrt (<) g \<and> k \<le> hd g"
      using IH m_sorted by (auto simp del: sorted_wrt.simps intro: Suc_leD)
    moreover have "sorted_wrt (<) (map hd ((k # members) # rest))"
      using IH by (auto intro: Suc_le_lessD)
    moreover have "length ((k # members) # rest) \<le> n - k"
      using IH k by auto
    ultimately show ?thesis
      unfolding eq by blast
  qed
qed

lemma index_groups_group_indices: "index_groups n (group_indices sim n [0..<n] {})"
proof -
  note p = group_indices_props[of sim n 0 "{}"]
  have "set (concat (group_indices sim n [0..<n] {})) = set [0..<n]"
    using p by simp
  moreover have "distinct (concat (group_indices sim n [0..<n] {}))"
    using p by blast
  ultimately have "mset (concat (group_indices sim n [0..<n] {})) = mset [0..<n]"
    using set_eq_iff_mset_eq_distinct[of "concat (group_indices sim n [0..<n] {})" "[0..<n]"]
    by simp
  then show ?thesis
    unfolding index_groups_def using p by simp
qed

lemma index_groups_singletons: "index_groups n (map (\<lambda>i. [i]) [0..<n])"
proof -
  have "concat (map (\<lambda>i. [i]) xs) = xs" for xs :: "nat list"
    by (induction xs) auto
  moreover have "map hd (map (\<lambda>i. [i]) xs) = xs" for xs :: "nat list"
    by (induction xs) auto
  ultimately show ?thesis
    by (auto simp: index_groups_def)
qed

lemma group_from_index_groups:
  assumes "\<forall>r \<in> set requests. \<exists>t. request_text r = Inr t"
  shows "\<exists>igs. group_from calc th requests (enumerate 0 requests) [] {}
                  = Inr (map (map ((!) requests)) igs)
               \<and> index_groups (length requests) igs"
proof -
  have ok: "\<forall>r \<in> set requests. request_text r = Inr (text_of r)"
    using assms by (auto simp: text_of_def)
  have sub: "set [0..<length requests] \<subseteq> {..<length requests}"
    by auto
  have "group_from calc th requests (enumerate 0 requests) [] {}
      = Inr (map (map ((!) requests))
          (group_indices (\<lambda>i j. th \<le> calc (text_of (requests ! i)) (text_of (requests ! j)))
             (length requests) [0..<length requests] {}))"
    using group_from_indices[OF ok sub, of calc th "[]" "{}"] enumerate_drop_nth[of 0 requests]
    by simp
  then show ?thesis
    using index_groups_group_indices by blast
qed

lemma windows_index_groups:
  assumes "\<forall>r \<in> set requests. \<exists>t. request_text r = Inr t"
  shows "\<exists>igs. group_similar_requests_windows th requests = Inr (map (map ((!) requests)) igs)
               \<and> index_groups (length requests) igs"
  unfolding group_similar_requests_windows_def by (rule group_from_index_groups[OF assms])

lemma singleton_groups:
  "map (map ((!) requests)) (map (\<lambda>i. [i]) [0..<length requests]) = map (\<lambda>req. [req]) requests"
  by (rule nth_equalityI) simp_all

lemma consolidated_index_groups:
  assumes "model matcher = None \<or> (\<forall>r \<in> set requests. \<exists>t. request_text r = Inr t)"
  shows "\<exists>igs. group_similar_requests ml matcher requests = Inr (map (map ((!) requests)) igs)
               \<and> index_groups (length requests) igs"
proof (cases "model matcher = None")
  case True
  have "group_similar_requests ml matcher requests
          = Inr (map (map ((!) requests)) (map (\<lambda>i. [i]) [0..<length requests]))"
    unfolding singleton_groups using True by (simp add: group_similar_requests_def)
  then show ?thesis
    using index_groups_singletons[of "length requests"] by blast
next
  case False
  with assms have ok: "\<forall>r \<in> set requests. \<exists>t. request_text r = Inr t"
    by simp
  show ?thesis
    unfolding group_similar_requests_def if_not_P[OF False]
    by (rule group_from_index_groups[OF ok])
qed

lemma index_groups_partition:
  assumes "index_groups (length requests) igs"
  shows "mset (concat (map (map ((!) requests)) igs)) = mset requests"
proof -
  have "concat (map (map ((!) requests)) igs) = map ((!) requests) (concat igs)"
    by (simp add: map_concat)
  then have "mset (concat (map (map ((!) requests)) igs))
               = image_mset ((!) requests) (mset (concat igs))"
    by simp
  also have "\<dots> = image_mset ((!) requests) (mset [0..<length requests])"
    using assms by (simp add: index_groups_def)
  also have "\<dots> = mset (map ((!) requests) [0..<length requests])"
    by simp
  also have "\<dots> = mset requests"
    by (simp add: map_nth)
  finally show ?thesis .
qed

lemma index_groups_bounds:
  assumes "index_groups n igs" and "ig \<in> set igs"
  shows "set ig \<subseteq> {..<n}" and "\<forall>j \<in> set ig. hd ig \<le> j"
proof -
  have "set ig \<subseteq> set (concat igs)"
    using assms(2) by auto
  also have "\<dots> = set_mset (mset (concat igs))"
    by simp
  also have "\<dots> = {..<n}"
    using assms(1) unfolding index_groups_def by (metis atLeast_upt set_mset_mset)
  finally show "set ig \<subseteq> {..<n}" .
  have "ig \<noteq> []" "sorted_wrt (<) ig"
    using assms by (auto simp: index_groups_def)
  then show "\<forall>j \<in> set ig. hd ig \<le> j"
    by (cases ig) (auto intro: less_imp_le)
qed


lemma example_texts:
  "\<forall>r \<in> set [request_logo, request_sink, request_logo_again]. \<exists>t. request_text r = Inr t"
  by (simp add: request_text_def dict_get_def request_logo_def request_sink_def
      request_logo_again_def)

lemma none_title_example:
  "group_similar_requests_windows (1 / 2) [request_logo, request_none_title] = Inl TypeError"
  by code_simp

lemma example_groups:
  "group_similar_requests_windows (1 / 2) [request_logo, request_sink, request_logo_again]
     = Inr [[request_logo, request_logo_again], [request_sink]]"
  by code_simp

text \<open>
  Claim C6. For records whose description and title are strings, both versions of
  \<open>group_similar_requests\<close> return, and the groups are the records at groups of
  positions \<open>igs\<close> in which every position of the input occurs exactly once: every
  input record is in exactly one group. No group is empty and there are at most as many
  groups as records. The records of a crawl meet the hypothesis
  (\<open>scraped_records_have_texts\<close>); on a record with \<open>None\<close> for one of the two
  fields the concatenation raises TypeError (\<open>none_title_example\<close>).
\<close>

theorem grouping_partitions_input:
  assumes "\<forall>r \<in> set requests. \<exists>t. request_text r = Inr t"
  shows "(\<exists>igs. group_similar_requests_windows th requests = Inr (map (map ((!) requests)) igs)
            \<and> mset (concat igs) = mset [0..<length requests]
            \<and> mset (concat (map (map ((!) requests)) igs)) = mset requests
            \<and> (\<forall>ig \<in> set igs. ig \<noteq> [])
            \<and> length igs \<le> length requests)
       \<and> (\<exists>igs. group_similar_requests ml matcher requests = Inr (map (map ((!) requests)) igs)
            \<and> mset (concat igs) = mset [0..<length requests]
            \<and> mset (concat (map (map ((!) requests)) igs)) = mset requests
            \<and> (\<forall>ig \<in> set igs. ig \<noteq> [])
            \<and> length igs \<le> length requests)"
proof -
  have part: "mset (concat igs) = mset [0..<length requests]
            \<and> mset (concat (map (map ((!) requests)) igs)) = mset requests
            \<and> (\<forall>ig \<in> set igs. ig \<noteq> [])
            \<and> length igs \<le> length requests"
    if "index_groups (length requests) igs" for igs
    using that index_groups_partition[OF that] by (simp add: index_groups_def)
  from windows_index_groups[OF assms, of th] obtain igs1 where
    "group_similar_requests_windows th requests = Inr (map (map ((!) requests)) igs1)"
    "index_groups (length requests) igs1"
    by blast
  moreover from consolidated_index_groups[of matcher requests ml] assms obtain igs2 where
    "group_similar_requests ml matcher requests = Inr (map (map ((!) requests)) igs2)"
    "index_groups (length requests) igs2"
    by blast
  ultimately show ?thesis
    using part by blast
qed

theorem grouping_partitions_input_witness:
  "group_similar_requests_windows (1 / 2) [request_logo, request_sink, request_logo_again]
     = Inr [[request_logo, request_logo_again], [request_sink]]
   \<and> (\<exists>igs. group_similar_requests_windows (1 / 2)
               [request_logo, request_sink, request_logo_again]
             = Inr (map (map ((!) [request_logo, request_sink, request_logo_again])) igs)
            \<and> mset (concat igs) = mset [0..<length [request_logo, request_sink, request_logo_again]]
            \<and> mset (concat (map (map ((!) [request_logo, request_sink, request_logo_again])) igs))
                = mset [request_logo, request_sink, request_logo_again]
            \<and> (\<forall>ig \<in> set igs. ig \<noteq> [])
            \<and> length igs \<le> length [request_logo, request_sink, request_logo_again])"
  using example_groups
    grouping_partitions_input[OF example_texts, of "1 / 2" False matcher_without_model,
      THEN conjunct1]
  by (rule conjI)

text \<open>
  Claim C9. In the same setting the positions of every group are strictly increasing, so
  the records of a group stand in their input order and the first one is the one with the
  smallest position, and the first positions of the groups are strictly increasing, so the
  groups stand in the order of their opening records.
\<close>

theorem grouping_keeps_input_order:
  assumes "\<forall>r \<in> set requests. \<exists>t. request_text r = Inr t"
  shows "(\<exists>igs. group_similar_requests_windows th requests = Inr (map (map ((!) requests)) igs)
            \<and> (\<forall>ig \<in> set igs. ig \<noteq> [] \<and> sorted_wrt (<) ig \<and> set ig \<subseteq> {..<length requests}
                  \<and> (\<forall>j \<in> set ig. hd ig \<le> j))
            \<and> sorted_wrt (<) (map hd igs))
       \<and> (\<exists>igs. group_similar_requests ml matcher requests = Inr (map (map ((!) requests)) igs)
            \<and> (\<forall>ig \<in> set igs. ig \<noteq> [] \<and> sorted_wrt (<) ig \<and> set ig \<subseteq> {..<length requests}
                  \<and> (\<forall>j \<in> set ig. hd ig \<le> j))
            \<and> sorted_wrt (<) (map hd igs))"
proof -
  have ord: "(\<forall>ig \<in> set igs. ig \<noteq> [] \<and> sorted_wrt (<) ig \<and> set ig \<subseteq> {..<length requests}
                  \<and> (\<forall>j \<in> set ig. hd ig \<le> j))
            \<and> sorted_wrt (<) (map hd igs)"
    if "index_groups (length requests) igs" for igs
    using that index_groups_bounds[OF that] by (simp add: index_groups_def)
  from windows_index_groups[OF assms, of th] obtain igs1 where
    "group_similar_requests_windows th requests = Inr (map (map ((!) requests)) igs1)"
    "index_groups (length requests) igs1"
    by blast
  moreover from consolidated_index_groups[of matcher requests ml] assms obtain igs2 where
    "group_similar_requests ml matcher requests = Inr (map (map ((!) requests)) igs2)"
    "index_groups (length requests) igs2"
    by blast
  ultimately show ?thesis
    using ord by blast
qed

theorem grouping_keeps_input_order_witness:
  "group_similar_requests_windows (1 / 2) [request_logo, request_sink, request_logo_again]
     = Inr (map (map ((!) [request_logo, request_sink, request_logo_again])) [[0, 2], [1]])
   \<and> (\<exists>igs. group_similar_requests_windows (1 / 2)
               [request_logo, request_sink, request_logo_again]
             = Inr (map (map ((!) [request_logo, request_sink, request_logo_again])) igs)
            \<and> (\<forall>ig \<in> set igs. ig \<noteq> [] \<and> sorted_wrt (<) ig
                  \<and> set ig \<subseteq> {..<length [request_logo, request_sink, request_logo_again]}
                  \<and> (\<forall>j \<in> set ig. hd ig \<le> j))
            \<and> sorted_wrt (<) (map hd igs))"
proof -
  have "group_similar_requests_windows (1 / 2) [request_logo, request_sink, request_logo_again]
     = Inr (map (map ((!) [request_logo, request_sink, request_logo_again])) [[0, 2], [1]])"
    using example_groups by simp
  then show ?thesis
    using grouping_keeps_input_order[OF example_texts, of "1 / 2" False matcher_without_model,
      THEN conjunct1]
    by (rule conjI)
qed

section \<open>Without the sentence encoder\<close>

text \<open>
  Claim C2, as the code has it. When the model is not loaded,
  \<open>SimbiSimilarityMatcher.calculate_similarity\<close> returns 0 for every pair of texts and
  \<open>group_similar_requests\<close> puts every record in a group of its own: matching is
  switched off. The word-based score is used by simbi\_automation\_windows.py only, which
  has no other matcher.
\<close>

theorem missing_model_disables_matching:
  assumes "model matcher = None"
  shows "SimbiSimilarityMatcher_calculate_similarity ml matcher text1 text2 = 0
     \<and> group_similar_requests ml matcher requests = Inr (map (\<lambda>req. [req]) requests)"
  using assms
  by (simp add: SimbiSimilarityMatcher_calculate_similarity_def group_similar_requests_def)

theorem missing_model_disables_matching_witness:
  "model matcher_without_model = None
   \<and> SimbiSimilarityMatcher_calculate_similarity False matcher_without_model
        ''Need a logo'' ''Need a logo'' = 0
   \<and> group_similar_requests False matcher_without_model [request_logo, request_logo_again]
       = Inr [[request_logo], [request_logo_again]]"
proof -
  have none: "model matcher_without_model = None"
    by (simp add: matcher_without_model_def)
  show ?thesis
    using none missing_model_disables_matching[OF none, of False "''Need a logo''"
        "''Need a logo''" "[request_logo, request_logo_again]"]
    by simp
qed

text \<open>
  The claim as the specification states it fails for two texts with the same words: the
  score without a model is 0 where the word-based score is 1, and the two records end in
  two groups where the word-based grouping makes one.
\<close>

theorem no_fallback_counterexample:
  "model matcher_without_model = None
   \<and> SimbiSimilarityMatcher_calculate_similarity False matcher_without_model
        ''Need a logo'' ''need a LOGO'' = 0
   \<and> SimpleSimilarityMatcher_calculate_similarity ''Need a logo'' ''need a LOGO'' = 1
   \<and> group_similar_requests False matcher_without_model [request_logo, request_logo_again]
       = Inr [[request_logo], [request_logo_again]]
   \<and> group_similar_requests_windows (threshold matcher_without_model)
        [request_logo, request_logo_again]
       = Inr [[request_logo, request_logo_again]]"
  by code_simp


end
